theory Spec2Isabelle
  imports Complex_Main
begin

section \<open>Data model\<close>

text \<open>
  The parser (\<^verbatim>\<open>parse.ts\<close>) works on the tokens of the scanner. The scanner
  itself (\<^verbatim>\<open>scan.ts\<close>), the stack types (\<^verbatim>\<open>stack.ts\<close>) and the type of the
  function table (\<^verbatim>\<open>functions.ts\<close>) are imported by the parser; the parser uses
  the members that appear below.
\<close>

text \<open>Modelled from the spec: the enum \<^verbatim>\<open>TokenType\<close> of \<^verbatim>\<open>scan.ts\<close>; the literal kinds
  integer, float, string, boolean; identifier; keyword; and the punctuation open/close
  brace, open/close paren, colon. These are exactly the members the parser names.\<close>

datatype TokenType =
    TInt | TFloat | TStr | TBool | Identifier | Keyword
  | OpenBracket | CloseBracket | OpenParen | CloseParen | Colon

text \<open>Modelled from the spec: the enum \<^verbatim>\<open>StackType\<close> of \<^verbatim>\<open>stack.ts\<close>, the closed
  enumeration Int, Float, Str, Bool, Any.\<close>

datatype StackType = SInt | SFloat | SStr | SBool | SAny

text \<open>A token's payload has the TypeScript type \<^verbatim>\<open>string | number | boolean\<close>.\<close>

datatype Value = VStr string | VNum real | VBool bool

record Pos =
  line :: int
  char :: int

text \<open>Modelled from the spec: the type \<^verbatim>\<open>Token\<close> of \<^verbatim>\<open>scan.ts\<close>: a classification,
  a start and an end position, and a payload. The fields are \<^verbatim>\<open>type\<close>, \<^verbatim>\<open>startPos\<close>,
  \<^verbatim>\<open>endPos\<close> and \<^verbatim>\<open>value\<close> in the source.\<close>

record Token =
  ttype :: TokenType
  startPos :: Pos
  endPos :: Pos
  tvalue :: Value

datatype StatementType = ForLoop | WhileLoop | Loop | If

text \<open>
  \<^verbatim>\<open>Program = Array<Expression | Statement>\<close>. An expression is a token in program
  position (the parser pushes \<^verbatim>\<open>current as Expression\<close>); a statement has a type,
  a block and an optional else block.
\<close>

datatype item =
    Expression Token
  | Statement StatementType "item list" "item list option"

type_synonym Program = "item list"

text \<open>The entry the parser writes into the function table:
  \<^verbatim>\<open>{stack: functionType, params: params, body: innerBlock}\<close>.\<close>

record StackFunction =
  stack :: StackType
  params :: "string \<rightharpoonup> StackType"
  body :: Program

type_synonym Functions = "string \<rightharpoonup> StackFunction"

text \<open>
  The objects of the source are plain JavaScript objects: the identifier context is
  \<^verbatim>\<open>{}\<close> or the \<^verbatim>\<open>params\<close> of a declaration (created as \<^verbatim>\<open>{}\<close>), and the function table
  is a \<^verbatim>\<open>Record<string, StackFunction>\<close>. The operator \<^verbatim>\<open>in\<close> and a property read follow the
  prototype chain, so every such object also has the members of \<^verbatim>\<open>Object.prototype\<close>:
\<close>

definition objectPrototypeNames :: "string list" where
  "objectPrototypeNames =
     [''constructor'', ''__defineGetter__'', ''__defineSetter__'', ''hasOwnProperty'',
      ''__lookupGetter__'', ''__lookupSetter__'', ''isPrototypeOf'', ''propertyIsEnumerable'',
      ''toString'', ''valueOf'', ''__proto__'', ''toLocaleString'']"

text \<open>
  The local variable \<^verbatim>\<open>stack\<close> of \<^verbatim>\<open>traverse\<close> is declared a \<^verbatim>\<open>StackType\<close>, but
  \<^verbatim>\<open>stack = otherIdentifiers[value]\<close> for an inherited name stores that member of
  \<^verbatim>\<open>Object.prototype\<close> (a function object; the prototype itself for \<^verbatim>\<open>__proto__\<close>), which
  is equal to no stack type.
\<close>

datatype StackValue = StackOf StackType | ProtoMember string

text \<open>
  One constructor of \<open>message\<close> for each message template of the source; the payload is
  what the template interpolates besides the position.
\<close>

datatype message =
    UnexpectedCharacter Value
  | UnexpectedFunctionType Value
  | UnexpectedElse
  | UnexpectedAny
  | UnexpectedBreak
  | UnexpectedContinue
  | ExpectedBracketAfterLoop
  | ExpectedLoopAfterFor
  | ExpectedBracketAfterFor
  | ExpectedLoopAfterWhile
  | ExpectedBracketAfterWhile
  | ExpectedBracketAfterIf
  | ExpectedBracketAfterElse
  | NestedFunction
  | ExpectedIdentifierAfterFn
  | ExpectedParenAfterIdentifier
  | ExpectedIdentifierOrParen
  | ExpectedEndingParen
  | ExpectedFunctionType
  | ExpectedBracketAfterFunction
  | UnknownKeyword Value
  | UnknownToken Value
  | ExpectedEndingBracket
  | CallNotFoundAtStack StackValue Value
  | UndeclaredIdentifier Value

text \<open>
  \<open>Error pos msg\<close> is a returned \<^verbatim>\<open>new Error(`${line}:${char} ...`)\<close>.
  \<open>TypeError\<close> is the exception JavaScript throws when a property of \<^verbatim>\<open>undefined\<close>
  is read. \<open>IllTyped\<close> marks a token whose payload is not a string where the source
  casts it (\<^verbatim>\<open>value as string\<close>) and uses it as a property key; the scanner gives
  identifier tokens string payloads, and nothing below is claimed about such tokens.
\<close>

datatype error = Error Pos message | TypeError | IllTyped

section \<open>The stack-type verifier\<close>

text \<open>
  \<^verbatim>\<open>value in otherIdentifiers\<close> and \<^verbatim>\<open>otherIdentifiers[value]\<close>: an own key of the object,
  or a member inherited from \<^verbatim>\<open>Object.prototype\<close>.
\<close>

definition inIdentifiers :: "(string \<rightharpoonup> StackType) \<Rightarrow> string \<Rightarrow> bool" where
  "inIdentifiers ids v = (v \<in> dom ids \<or> v \<in> set objectPrototypeNames)"

definition getIdentifier :: "(string \<rightharpoonup> StackType) \<Rightarrow> string \<Rightarrow> StackValue" where
  "getIdentifier ids v = (case ids v of Some ty \<Rightarrow> StackOf ty | None \<Rightarrow> ProtoMember v)"

text \<open>
  \<^verbatim>\<open>value in this.functions\<close> and \<^verbatim>\<open>this.functions[value].stack\<close>. The parser's assignment
  \<^verbatim>\<open>this.functions[name] = {stack, params, body}\<close> creates an own key, except for the
  name \<^verbatim>\<open>__proto__\<close>, where it replaces the table's prototype by the new entry; the key
  \<open>''__proto__''\<close> of a table stands for that prototype here (reading
  \<^verbatim>\<open>this.functions["__proto__"]\<close> gives it back). A table whose prototype is such an
  entry inherits the entry's three fields as members: \<^verbatim>\<open>stack\<close> (a stack type) and
  \<^verbatim>\<open>body\<close> (an array) have no property \<^verbatim>\<open>stack\<close>, and \<^verbatim>\<open>params\<close> has one when a
  parameter is called \<^verbatim>\<open>stack\<close>. \<open>None\<close> is \<^verbatim>\<open>undefined\<close>, also for the members of
  \<^verbatim>\<open>Object.prototype\<close>.
\<close>

definition inFunctions :: "Functions \<Rightarrow> string \<Rightarrow> bool" where
  "inFunctions fs v =
     (v \<in> dom fs
      \<or> (''__proto__'' \<in> dom fs \<and> v \<in> set [''stack'', ''params'', ''body''])
      \<or> v \<in> set objectPrototypeNames)"

definition functionStack :: "Functions \<Rightarrow> string \<Rightarrow> StackType option" where
  "functionStack fs v =
     (case fs v of
        Some f \<Rightarrow> Some (stack f)
      | None \<Rightarrow>
         (case fs ''__proto__'' of
            Some g \<Rightarrow> if v = ''params'' then params g ''stack'' else None
          | None \<Rightarrow> None))"

text \<open>
  The branch of \<^verbatim>\<open>traverse\<close> for an expression (\<^verbatim>\<open>"value" in item\<close>): the new value
  of the local variable \<^verbatim>\<open>stack\<close>, or the error returned.
\<close>

definition keywordStack :: "Value \<Rightarrow> StackValue \<Rightarrow> StackValue" where
  "keywordStack v st =
     (if v = VStr ''int'' then StackOf SInt
      else if v = VStr ''float'' then StackOf SFloat
      else if v = VStr ''str'' then StackOf SStr
      else if v = VStr ''bool'' then StackOf SBool
      else if v = VStr ''any'' then StackOf SAny
      else st)"

definition traverseExpression ::
  "Functions \<Rightarrow> (string \<rightharpoonup> StackType) \<Rightarrow> StackValue \<Rightarrow> Token \<Rightarrow> error + StackValue" where
  "traverseExpression fs otherIdentifiers st t =
     (if ttype t = Identifier then
        (case tvalue t of
           VStr v \<Rightarrow>
             if inIdentifiers otherIdentifiers v then Inr (getIdentifier otherIdentifiers v)
             else if inFunctions fs v then
               (if map_option StackOf (functionStack fs v) \<noteq> Some st
                   \<and> functionStack fs v \<noteq> Some SAny
                then Inl (Error (startPos t) (CallNotFoundAtStack st (tvalue t)))
                else Inr st)
             else Inl (Error (startPos t) (UndeclaredIdentifier (tvalue t)))
         | _ \<Rightarrow> Inl IllTyped)
      else if ttype t = Keyword then Inr (keywordStack (tvalue t) st)
      else if ttype t = TInt then Inr (StackOf SInt)
      else if ttype t = TFloat then Inr (StackOf SFloat)
      else if ttype t = TStr then Inr (StackOf SStr)
      else if ttype t = TBool then Inr (StackOf SBool)
      else Inr st)"

text \<open>
  \<^verbatim>\<open>traverse(program, otherIdentifiers, stack)\<close>: the loop over the items. The source
  returns an Error or nothing; the model returns the error or the final value of the
  local variable \<^verbatim>\<open>stack\<close>, so that the stack type after a statement can be stated.
  The else block of an \<^verbatim>\<open>If\<close> statement is tested for presence only
  (\<^verbatim>\<open>if(item.else)\<close>; an empty array is truthy): both calls traverse \<^verbatim>\<open>item.block\<close>.
\<close>

function traverse ::
  "Functions \<Rightarrow> (string \<rightharpoonup> StackType) \<Rightarrow> StackValue \<Rightarrow> Program \<Rightarrow> error + StackValue" where
  "traverse fs ids st [] = Inr st"
| "traverse fs ids st (Expression t # rest) =
     (case traverseExpression fs ids st t of
        Inl e \<Rightarrow> Inl e
      | Inr st' \<Rightarrow> traverse fs ids st' rest)"
| "traverse fs ids st (Statement Loop blk els # rest) =
     (case traverse fs ids st blk of
        Inl e \<Rightarrow> Inl e
      | Inr _ \<Rightarrow> traverse fs ids st rest)"
| "traverse fs ids st (Statement ForLoop blk els # rest) =
     (case traverse fs ids (StackOf SInt) blk of
        Inl e \<Rightarrow> Inl e
      | Inr _ \<Rightarrow> traverse fs ids (StackOf SInt) rest)"
| "traverse fs ids st (Statement WhileLoop blk els # rest) =
     (case traverse fs ids (StackOf SBool) blk of
        Inl e \<Rightarrow> Inl e
      | Inr _ \<Rightarrow> traverse fs ids (StackOf SBool) rest)"
| "traverse fs ids st (Statement If blk els # rest) =
     (let firstBlock = traverse fs ids (StackOf SBool) blk in
      case els of
        Some _ \<Rightarrow>
          (let secondBlock = traverse fs ids (StackOf SBool) blk in
           case secondBlock of
             Inl e \<Rightarrow> Inl e
           | Inr _ \<Rightarrow>
              (case firstBlock of
                 Inl e \<Rightarrow> Inl e
               | Inr _ \<Rightarrow> traverse fs ids (StackOf SBool) rest))
      | None \<Rightarrow>
          (case firstBlock of
             Inl e \<Rightarrow> Inl e
           | Inr _ \<Rightarrow> traverse fs ids (StackOf SBool) rest))"
  by pat_completeness auto
termination
  by (relation "measure (\<lambda>(fs, ids, st, p). size_list size p)") auto

text \<open>
  \<^verbatim>\<open>#checkFunctions\<close>: the root program from \<^verbatim>\<open>{}\<close> and \<^verbatim>\<open>StackType.Int\<close>, then the
  body of each name of \<^verbatim>\<open>newFunctions\<close> in order, stopping at the first error.
  \<open>None\<close> is the source's \<^verbatim>\<open>undefined\<close> (no error). For a name without an entry
  \<^verbatim>\<open>this.functions[fn].body\<close> is no program (reading it throws, or it is \<^verbatim>\<open>undefined\<close>
  and the loop over it throws).
\<close>

fun checkNewFunctions :: "Functions \<Rightarrow> string list \<Rightarrow> error option" where
  "checkNewFunctions fs [] = None"
| "checkNewFunctions fs (fn # fns) =
     (case fs fn of
        None \<Rightarrow> Some TypeError
      | Some f \<Rightarrow>
         (case traverse fs (params f) (StackOf (stack f)) (body f) of
            Inl e \<Rightarrow> Some e
          | Inr _ \<Rightarrow> checkNewFunctions fs fns))"

definition checkFunctions :: "Program \<Rightarrow> Functions \<Rightarrow> string list \<Rightarrow> error option" where
  "checkFunctions program fs newFns =
     (case traverse fs Map.empty (StackOf SInt) program of
        Inl e \<Rightarrow> Some e
      | Inr _ \<Rightarrow> checkNewFunctions fs newFns)"

section \<open>The parser\<close>

text \<open>
  The fields of the class \<^verbatim>\<open>Parser\<close> that parsing changes. The token array is never
  changed and is passed beside the state; \<^verbatim>\<open>program\<close> is the result of \<^verbatim>\<open>parse\<close>.
  The field \<^verbatim>\<open>functions\<close> is \<open>functions_map\<close> here.
  The pointer is a natural number: it starts at 0 and each of the three decrements of
  the source follows an increment (see \<open>parseItems_nested_progress\<close> for the one that
  follows a nested block).
\<close>

record Parser =
  pointer :: nat
  functions_map :: Functions
  newFunctions :: "string list"

definition isAtEnd :: "Token list \<Rightarrow> nat \<Rightarrow> bool" where
  "isAtEnd ts p = (p \<ge> length ts)"

text \<open>
  \<^verbatim>\<open>#peek\<close>. At the end it builds a closing bracket one column after the latest
  token; \<^verbatim>\<open>this.tokens[this.pointer - 1]\<close> is \<^verbatim>\<open>undefined\<close> when that index is not in
  the array (index -1 for pointer 0), and reading its \<^verbatim>\<open>endPos\<close> throws.
\<close>

definition peek :: "Token list \<Rightarrow> nat \<Rightarrow> error + Token" where
  "peek ts p =
     (if isAtEnd ts p then
        (if 1 \<le> p \<and> p - 1 < length ts then
           (let latestToken = ts ! (p - 1);
                pos = \<lparr>line = line (endPos latestToken), char = char (endPos latestToken) + 1\<rparr>
            in Inr \<lparr>ttype = CloseBracket, startPos = pos, endPos = pos, tvalue = VStr []\<rparr>)
         else Inl TypeError)
      else Inr (ts ! p))"

text \<open>
  \<^verbatim>\<open>#expect(type, value?)\<close> increments the pointer and answers whether the token
  there has the type (and the value, when one is given and is not the empty string).
  \<open>expect ts p ty v\<close> is the answer when the pointer is \<open>p\<close> before the call; the pointer
  after the call is \<open>Suc p\<close>, which the callers below write out.
\<close>

definition expect :: "Token list \<Rightarrow> nat \<Rightarrow> TokenType \<Rightarrow> string option \<Rightarrow> bool" where
  "expect ts p ty v =
     (if isAtEnd ts (Suc p) then False
      else ttype (ts ! Suc p) = ty \<and>
           (case v of None \<Rightarrow> True | Some s \<Rightarrow> s = [] \<or> tvalue (ts ! Suc p) = VStr s))"

text \<open>\<^verbatim>\<open>new Error(`${this.#peek().startPos.line}:${this.#peek().startPos.char} ...`)\<close>\<close>

definition errorAtPeek :: "Token list \<Rightarrow> nat \<Rightarrow> message \<Rightarrow> error" where
  "errorAtPeek ts p msg = (case peek ts p of Inl e \<Rightarrow> e | Inr t \<Rightarrow> Error (startPos t) msg)"

text \<open>\<^verbatim>\<open>[...].includes(current.value as string)\<close>\<close>

definition includes_str :: "string list \<Rightarrow> Value \<Rightarrow> bool" where
  "includes_str xs v = (case v of VStr s \<Rightarrow> s \<in> set xs | _ \<Rightarrow> False)"

text \<open>The two object literals that map a type keyword to a stack type. Each is read
  under an \<^verbatim>\<open>includes\<close> test for its own five keys.\<close>

definition paramType :: "Value \<Rightarrow> StackType option" where
  "paramType v =
     map_of [(VStr ''int'', SInt), (VStr ''float'', SFloat), (VStr ''str'', SStr),
             (VStr ''bool'', SBool), (VStr ''any'', SAny)] v"

definition functionType :: "Value \<Rightarrow> StackType option" where
  "functionType v =
     map_of [(VStr ''@int'', SInt), (VStr ''@float'', SFloat), (VStr ''@str'', SStr),
             (VStr ''@bool'', SBool), (VStr ''@any'', SAny)] v"

text \<open>
  \<^verbatim>\<open>params[name] = ...\<close> with a stack type on the right: it creates or overwrites an own
  key, except for the name \<^verbatim>\<open>__proto__\<close>, whose setter ignores a value that is no object.
\<close>

definition assignParam ::
  "(string \<rightharpoonup> StackType) \<Rightarrow> string \<Rightarrow> StackType \<Rightarrow> (string \<rightharpoonup> StackType)" where
  "assignParam ps name ty = (if name = ''__proto__'' then ps else ps(name \<mapsto> ty))"

text \<open>
  The parameter loop of a function declaration,
  \<^verbatim>\<open>while(!this.#isAtEnd() && !this.#expect(TokenType.CloseParen))\<close>, from the pointer
  \<open>p\<close> at its test: the parameters and the pointer when the loop is left. The body
  steps back (\<open>Suc p - 1\<close>), expects an identifier at \<open>Suc p\<close>, and then either finds a
  colon at \<open>p + 2\<close> and moves to \<open>p + 3\<close>, or steps back to \<open>Suc p\<close>.
\<close>

function parseParams ::
  "Token list \<Rightarrow> nat \<Rightarrow> (string \<rightharpoonup> StackType) \<Rightarrow> error + ((string \<rightharpoonup> StackType) \<times> nat)" where
  "parseParams ts p ps =
     (if isAtEnd ts p then Inr (ps, p)
      else if expect ts p CloseParen None then Inr (ps, Suc p)
      else if \<not> expect ts (Suc p - 1) Identifier None
        then Inl (errorAtPeek ts (Suc p) ExpectedIdentifierOrParen)
      else
        (case peek ts (Suc p) of
           Inl e \<Rightarrow> Inl e
         | Inr nameToken \<Rightarrow>
            (case tvalue nameToken of
               VStr name \<Rightarrow>
                 if expect ts (Suc p) Colon None then
                   (case peek ts (p + 3) of
                      Inl e \<Rightarrow> Inl e
                    | Inr t \<Rightarrow>
                       (case (if ttype t = Keyword then paramType (tvalue t) else None) of
                          Some ty \<Rightarrow> parseParams ts (p + 3) (assignParam ps name ty)
                        | None \<Rightarrow> parseParams ts (p + 3) ps))
                 else parseParams ts (p + 2 - 1) (assignParam ps name SAny)
             | _ \<Rightarrow> Inl IllTyped)))"
  by pat_completeness auto
termination
  by (relation "measure (\<lambda>(ts, p, ps). length ts - p)") (auto simp: isAtEnd_def)

declare parseParams.simps [simp del]

text \<open>
  What one turn of the statement loop does with the current token before any nested
  block is parsed: it fails, pushes the token, closes the block, or has read the head
  of a statement up to its opening bracket (the pointer is then at the bracket).
\<close>

datatype action =
    Fail error
  | Push
  | Close
  | OpenBlock StatementType nat
  | OpenIf nat
  | OpenFn string "string \<rightharpoonup> StackType" StackType nat

definition loopHead :: "Token list \<Rightarrow> nat \<Rightarrow> action" where
  "loopHead ts p =
     (if \<not> expect ts p OpenBracket None
      then Fail (errorAtPeek ts (Suc p) ExpectedBracketAfterLoop)
      else OpenBlock Loop (Suc p))"

definition forHead :: "Token list \<Rightarrow> nat \<Rightarrow> action" where
  "forHead ts p =
     (if \<not> expect ts p Keyword (Some ''loop'')
      then Fail (errorAtPeek ts (Suc p) ExpectedLoopAfterFor)
      else if \<not> expect ts (Suc p) OpenBracket None
      then Fail (errorAtPeek ts (p + 2) ExpectedBracketAfterFor)
      else OpenBlock ForLoop (p + 2))"

definition whileHead :: "Token list \<Rightarrow> nat \<Rightarrow> action" where
  "whileHead ts p =
     (if \<not> expect ts p Keyword (Some ''loop'')
      then Fail (errorAtPeek ts (Suc p) ExpectedLoopAfterWhile)
      else if \<not> expect ts (Suc p) OpenBracket None
      then Fail (errorAtPeek ts (p + 2) ExpectedBracketAfterWhile)
      else OpenBlock WhileLoop (p + 2))"

definition ifHead :: "Token list \<Rightarrow> nat \<Rightarrow> action" where
  "ifHead ts p =
     (if \<not> expect ts p OpenBracket None
      then Fail (errorAtPeek ts (Suc p) ExpectedBracketAfterIf)
      else OpenIf (Suc p))"

definition fnHead :: "Token list \<Rightarrow> bool \<Rightarrow> Token \<Rightarrow> nat \<Rightarrow> action" where
  "fnHead ts isInRoot current p =
     (if \<not> isInRoot then Fail (Error (startPos current) NestedFunction)
      else if \<not> expect ts p Identifier None
      then Fail (errorAtPeek ts (Suc p) ExpectedIdentifierAfterFn)
      else
        (case peek ts (Suc p) of
           Inl e \<Rightarrow> Fail e
         | Inr nameToken \<Rightarrow>
            (case tvalue nameToken of
               VStr name \<Rightarrow>
                 if \<not> expect ts (Suc p) OpenParen None
                 then Fail (errorAtPeek ts (p + 2) ExpectedParenAfterIdentifier)
                 else
                   (case peek ts (p + 2) of
                      Inl e \<Rightarrow> Fail e
                    | Inr parenToken \<Rightarrow>
                       (case parseParams ts (p + 2) Map.empty of
                          Inl e \<Rightarrow> Fail e
                        | Inr (ps, q) \<Rightarrow>
                           if isAtEnd ts q
                           then Fail (Error (startPos parenToken) ExpectedEndingParen)
                           else
                             (case peek ts (Suc q) of
                                Inl e \<Rightarrow> Fail e
                              | Inr typeToken \<Rightarrow>
                                 (case (if \<not> isAtEnd ts (Suc q) \<and> ttype typeToken = Keyword
                                        then functionType (tvalue typeToken) else None) of
                                    None \<Rightarrow> Fail (Error (startPos typeToken) ExpectedFunctionType)
                                  | Some fty \<Rightarrow>
                                     if \<not> expect ts (Suc q) OpenBracket None
                                     then Fail (errorAtPeek ts (q + 2) ExpectedBracketAfterFunction)
                                     else OpenFn name ps fty (q + 2)))))
             | _ \<Rightarrow> Fail IllTyped)))"

definition dispatch :: "Token list \<Rightarrow> bool \<Rightarrow> bool \<Rightarrow> bool \<Rightarrow> Token \<Rightarrow> nat \<Rightarrow> action" where
  "dispatch ts isInRoot isInLoop isInFunction current p =
     (if ttype current \<in> set [OpenBracket, CloseParen, OpenParen, Colon]
      then Fail (Error (startPos current) (UnexpectedCharacter (tvalue current)))
      else if ttype current \<in> set [TInt, TFloat, TStr, TBool, Identifier] then Push
      else if ttype current = CloseBracket then Close
      else if ttype current = Keyword then
        (if includes_str [''int'', ''bool'', ''str'', ''float''] (tvalue current) then Push
         else if includes_str [''@int'', ''@bool'', ''@str'', ''@float'', ''@any''] (tvalue current)
         then Fail (Error (startPos current) (UnexpectedFunctionType (tvalue current)))
         else if tvalue current = VStr ''else''
         then Fail (Error (startPos current) UnexpectedElse)
         else if tvalue current = VStr ''any'' then
           (if isInFunction then Push else Fail (Error (startPos current) UnexpectedAny))
         else if tvalue current = VStr ''break'' then
           (if isInLoop then Push else Fail (Error (startPos current) UnexpectedBreak))
         else if tvalue current = VStr ''continue'' then
           (if isInLoop then Push else Fail (Error (startPos current) UnexpectedContinue))
         else if tvalue current = VStr ''loop'' then loopHead ts p
         else if tvalue current = VStr ''for'' then forHead ts p
         else if tvalue current = VStr ''while'' then whileHead ts p
         else if tvalue current = VStr ''if'' then ifHead ts p
         else if tvalue current = VStr ''fn'' then fnHead ts isInRoot current p
         else Fail (Error (startPos current) (UnknownKeyword (tvalue current))))
      else Fail (Error (startPos current) (UnknownToken (tvalue current))))"

text \<open>
  The statement loop of \<^verbatim>\<open>#parseStatement\<close>, \<^verbatim>\<open>while(!this.#isAtEnd())\<close>, with the test
  after it. \<open>start\<close> is the \<^verbatim>\<open>startPos\<close> taken on entry and \<open>block\<close> the items pushed so
  far. A nested call \<^verbatim>\<open>this.#parseStatement(false, a, b, c)\<close> with the pointer at the
  opening bracket \<open>p\<close> is written out as its entry (peek, then the increment for a
  block that is not the root) followed by the loop; the arguments \<open>a\<close>, \<open>b\<close>, \<open>c\<close> are
  bound to the parameters \<^verbatim>\<open>isInLoop\<close>, \<^verbatim>\<open>isInIf\<close>, \<^verbatim>\<open>isInFunction\<close> in this order:
  \<^verbatim>\<open>(false, isInIf, isInFunction, true)\<close> for the three loops,
  \<^verbatim>\<open>(false, true, isInFunction, isInLoop)\<close> for an if and its else,
  \<^verbatim>\<open>(false, isInIf, true, isInLoop)\<close> for a function body.
  After the block of an if, \<^verbatim>\<open>this.pointer -= 1\<close> and \<^verbatim>\<open>#expect(Keyword, "else")\<close>.
\<close>

function parseItems ::
  "Token list \<Rightarrow> bool \<Rightarrow> bool \<Rightarrow> bool \<Rightarrow> bool \<Rightarrow> Pos \<Rightarrow> Program \<Rightarrow> Parser
     \<Rightarrow> error + (Program \<times> Parser)" where
  "parseItems ts isInRoot isInLoop isInIf isInFunction start block st =
     (if isAtEnd ts (pointer st) then
        (if \<not> isInRoot then Inl (Error start ExpectedEndingBracket) else Inr (block, st))
      else
        (case peek ts (pointer st) of
           Inl e \<Rightarrow> Inl e
         | Inr current \<Rightarrow>
            (case dispatch ts isInRoot isInLoop isInFunction current (pointer st) of
               Fail e \<Rightarrow> Inl e
             | Push \<Rightarrow>
                 parseItems ts isInRoot isInLoop isInIf isInFunction start
                   (block @ [Expression current]) (st\<lparr>pointer := Suc (pointer st)\<rparr>)
             | Close \<Rightarrow> Inr (block, st\<lparr>pointer := Suc (pointer st)\<rparr>)
             | OpenBlock ty p \<Rightarrow>
                 (case peek ts p of
                    Inl e \<Rightarrow> Inl e
                  | Inr bracket \<Rightarrow>
                     (case parseItems ts False isInIf isInFunction True (startPos bracket) []
                             (st\<lparr>pointer := Suc p\<rparr>) of
                        Inl e \<Rightarrow> Inl e
                      | Inr (innerBlock, st1) \<Rightarrow>
                          parseItems ts isInRoot isInLoop isInIf isInFunction start
                            (block @ [Statement ty innerBlock None]) st1))
             | OpenIf p \<Rightarrow>
                 (case peek ts p of
                    Inl e \<Rightarrow> Inl e
                  | Inr bracket \<Rightarrow>
                     (case parseItems ts False True isInFunction isInLoop (startPos bracket) []
                             (st\<lparr>pointer := Suc p\<rparr>) of
                        Inl e \<Rightarrow> Inl e
                      | Inr (innerBlock, st1) \<Rightarrow>
                          if expect ts (pointer st1 - 1) Keyword (Some ''else'') then
                            (if \<not> expect ts (Suc (pointer st1 - 1)) OpenBracket None
                             then Inl (errorAtPeek ts (Suc (Suc (pointer st1 - 1)))
                                         ExpectedBracketAfterElse)
                             else
                               (case peek ts (Suc (Suc (pointer st1 - 1))) of
                                  Inl e \<Rightarrow> Inl e
                                | Inr bracket2 \<Rightarrow>
                                   (case parseItems ts False True isInFunction isInLoop
                                           (startPos bracket2) []
                                           (st1\<lparr>pointer := Suc (Suc (Suc (pointer st1 - 1)))\<rparr>) of
                                      Inl e \<Rightarrow> Inl e
                                    | Inr (elseBlock, st2) \<Rightarrow>
                                        parseItems ts isInRoot isInLoop isInIf isInFunction start
                                          (block @ [Statement If innerBlock (Some elseBlock)]) st2)))
                          else
                            parseItems ts isInRoot isInLoop isInIf isInFunction start
                              (block @ [Statement If innerBlock None])
                              (st1\<lparr>pointer := Suc (pointer st1 - 1)\<rparr>)))
             | OpenFn name ps fty p \<Rightarrow>
                 (case peek ts p of
                    Inl e \<Rightarrow> Inl e
                  | Inr bracket \<Rightarrow>
                     (case parseItems ts False isInIf True isInLoop (startPos bracket) []
                             (st\<lparr>pointer := Suc p\<rparr>) of
                        Inl e \<Rightarrow> Inl e
                      | Inr (innerBlock, st1) \<Rightarrow>
                          parseItems ts isInRoot isInLoop isInIf isInFunction start block
                            (st1\<lparr>newFunctions := newFunctions st1 @ [name],
                                 functions_map := (functions_map st1)
                                   (name \<mapsto> \<lparr>stack = fty, params = ps, body = innerBlock\<rparr>)\<rparr>))))))"
  by pat_completeness auto


text \<open>Termination: every head leaves the pointer beyond the current token, and a
  nested block returns with the pointer beyond its opening bracket.\<close>

lemma expect_less: "expect ts p ty v \<Longrightarrow> Suc p < length ts"
  by (simp add: expect_def isAtEnd_def split: if_splits)

lemma parseParams_pointer: "parseParams ts p ps = Inr (ps', q) \<Longrightarrow> p \<le> q"
proof (induction ts p ps rule: parseParams.induct)
  case (1 ts p ps)
  show ?case
    using "1.prems" "1.IH"
    by (subst (asm) parseParams.simps)
       (fastforce split: if_splits sum.splits Value.splits option.splits)
qed

lemma fnHead_OpenFn:
  "fnHead ts isInRoot current p = OpenFn name ps fty q \<Longrightarrow> p < q \<and> q < length ts"
  by (auto simp: fnHead_def split: if_splits sum.splits Value.splits option.splits prod.splits
           dest!: parseParams_pointer expect_less)

lemma fnHead_not_block [simp]:
  "fnHead ts isInRoot current p \<noteq> OpenBlock ty q"
  "fnHead ts isInRoot current p \<noteq> OpenIf q"
  "fnHead ts isInRoot current p \<noteq> Push"
  "fnHead ts isInRoot current p \<noteq> Close"
  by (auto simp: fnHead_def split: if_splits sum.splits Value.splits option.splits prod.splits)

lemma dispatch_OpenBlock:
  "dispatch ts r l f current p = OpenBlock ty q \<Longrightarrow> p < q \<and> q < length ts"
  by (auto simp: dispatch_def loopHead_def forHead_def whileHead_def ifHead_def
           split: if_splits dest!: expect_less)

lemma dispatch_OpenIf:
  "dispatch ts r l f current p = OpenIf q \<Longrightarrow> p < q \<and> q < length ts"
  by (auto simp: dispatch_def loopHead_def forHead_def whileHead_def ifHead_def
           split: if_splits dest!: expect_less)

lemma dispatch_OpenFn:
  "dispatch ts r l f current p = OpenFn name ps fty q \<Longrightarrow> p < q \<and> q < length ts"
  by (auto simp: dispatch_def loopHead_def forHead_def whileHead_def ifHead_def
           split: if_splits dest!: fnHead_OpenFn)

lemma parseItems_dom_pointer:
  assumes "parseItems_dom (ts, r, l, i, f, start, block, st)"
    and "parseItems ts r l i f start block st = Inr (block', st')"
  shows "pointer st \<le> pointer st'"
  using assms
proof (induction ts r l i f start block st arbitrary: block' st' rule: parseItems.pinduct)
  case (1 ts r l i f start block st)
  note dom = "1.hyps"
  note res = "1.prems"[unfolded parseItems.psimps[OF dom]]
  show ?case
  proof (cases "isAtEnd ts (pointer st)")
    case True
    with res show ?thesis by (auto split: if_splits)
  next
    case False
    then obtain current where pk: "peek ts (pointer st) = Inr current"
      by (auto simp: peek_def)
    show ?thesis
    proof (cases "dispatch ts r l f current (pointer st)")
      case (Fail e)
      with res False pk show ?thesis by simp
    next
      case Push
      with res False pk have "parseItems ts r l i f start (block @ [Expression current])
          (st\<lparr>pointer := Suc (pointer st)\<rparr>) = Inr (block', st')" by simp
      from "1.IH"(1)[OF False pk Push this] show ?thesis by simp
    next
      case Close
      with res False pk show ?thesis by auto
    next
      case (OpenBlock ty q)
      from dispatch_OpenBlock[OF OpenBlock] have q: "pointer st < q" "q < length ts" by auto
      from res False pk OpenBlock obtain bracket inner st1 where
        b: "peek ts q = Inr bracket" and
        n1: "parseItems ts False i f True (startPos bracket) [] (st\<lparr>pointer := Suc q\<rparr>) = Inr (inner, st1)" and
        n2: "parseItems ts r l i f start (block @ [Statement ty inner None]) st1 = Inr (block', st')"
        by (auto split: sum.splits)
      from "1.IH"(2)[OF False pk OpenBlock b n1] have "Suc q \<le> pointer st1" by simp
      moreover from "1.IH"(3)[OF False pk OpenBlock b n1 refl n2] have "pointer st1 \<le> pointer st'" .
      ultimately show ?thesis using q by simp
    next
      case (OpenIf q)
      from dispatch_OpenIf[OF OpenIf] have q: "pointer st < q" "q < length ts" by auto
      from res False pk OpenIf obtain bracket inner st1 where
        b: "peek ts q = Inr bracket" and
        n1: "parseItems ts False True f l (startPos bracket) [] (st\<lparr>pointer := Suc q\<rparr>) = Inr (inner, st1)"
        by (auto split: sum.splits)
      from "1.IH"(4)[OF False pk OpenIf b n1] have p1: "Suc q \<le> pointer st1" by simp
      show ?thesis
      proof (cases "expect ts (pointer st1 - 1) Keyword (Some ''else'')")
        case True
        with res False pk OpenIf b n1 obtain bracket2 els st2 where
          e2: "expect ts (Suc (pointer st1 - 1)) OpenBracket None" and
          b2: "peek ts (Suc (Suc (pointer st1 - 1))) = Inr bracket2" and
          n2: "parseItems ts False True f l (startPos bracket2) []
                 (st1\<lparr>pointer := Suc (Suc (Suc (pointer st1 - 1)))\<rparr>) = Inr (els, st2)" and
          n3: "parseItems ts r l i f start (block @ [Statement If inner (Some els)]) st2 = Inr (block', st')"
          by (auto split: sum.splits if_splits)
        from e2 have e2': "\<not> \<not> expect ts (Suc (pointer st1 - 1)) OpenBracket None" by simp
        from "1.IH"(5)[OF False pk OpenIf b n1 refl True e2' b2 n2]
        have "Suc (Suc (Suc (pointer st1 - 1))) \<le> pointer st2" by simp
        moreover from "1.IH"(6)[OF False pk OpenIf b n1 refl True e2' b2 n2 refl n3]
        have "pointer st2 \<le> pointer st'" .
        ultimately show ?thesis using q p1 by simp
      next
        case F: False
        with res False pk OpenIf b n1 have
          n3: "parseItems ts r l i f start (block @ [Statement If inner None])
                (st1\<lparr>pointer := Suc (pointer st1 - 1)\<rparr>) = Inr (block', st')"
          by (auto split: sum.splits if_splits)
        from "1.IH"(7)[OF False pk OpenIf b n1 refl F n3]
        show ?thesis using q p1 by simp
      qed
    next
      case (OpenFn name ps fty q)
      from dispatch_OpenFn[OF OpenFn] have q: "pointer st < q" "q < length ts" by auto
      from res False pk OpenFn obtain bracket inner st1 where
        b: "peek ts q = Inr bracket" and
        n1: "parseItems ts False i True l (startPos bracket) [] (st\<lparr>pointer := Suc q\<rparr>) = Inr (inner, st1)" and
        n2: "parseItems ts r l i f start block
              (st1\<lparr>newFunctions := newFunctions st1 @ [name],
                   functions_map := (functions_map st1)
                     (name \<mapsto> \<lparr>stack = fty, params = ps, body = inner\<rparr>)\<rparr>) = Inr (block', st')"
        by (auto split: sum.splits)
      from "1.IH"(8)[OF False pk OpenFn b n1] have "Suc q \<le> pointer st1" by simp
      moreover from "1.IH"(9)[OF False pk OpenFn b n1 refl n2] have "pointer st1 \<le> pointer st'" by simp
      ultimately show ?thesis using q by simp
    qed
  qed
qed

termination parseItems
proof (relation "measure (\<lambda>(ts, r, l, i, f, start, block, st). length ts - pointer st)", goal_cases)
  case 1
  show ?case by simp
next
  case (2 ts r l i f start block st current)
  then show ?case by (simp add: isAtEnd_def)
next
  case (3 ts r l i f start block st current ty q bracket)
  then show ?case by (auto simp: isAtEnd_def dest!: dispatch_OpenBlock)
next
  case (4 ts r l i f start block st current ty q bracket res inner st1)
  from 4 have "pointer st < q" by (auto dest!: dispatch_OpenBlock)
  moreover from 4 have "Suc q \<le> pointer st1" by (auto dest: parseItems_dom_pointer)
  ultimately show ?case using 4(1) by (simp add: isAtEnd_def)
next
  case (5 ts r l i f start block st current q bracket)
  then show ?case by (auto simp: isAtEnd_def dest!: dispatch_OpenIf)
next
  case (6 ts r l i f start block st current q bracket res inner st1 bracket2)
  from 6 have "pointer st < q" by (auto dest!: dispatch_OpenIf)
  moreover from 6 have "Suc q \<le> pointer st1" by (auto dest: parseItems_dom_pointer)
  ultimately show ?case using 6(1) by (simp add: isAtEnd_def)
next
  case (7 ts r l i f start block st current q bracket res inner st1 bracket2 res2 els st2)
  from 7 have "pointer st < q" by (auto dest!: dispatch_OpenIf)
  moreover from 7 have "Suc q \<le> pointer st1" by (auto dest: parseItems_dom_pointer)
  moreover from 7 have "Suc (Suc (Suc (pointer st1 - 1))) \<le> pointer st2"
    by (auto dest: parseItems_dom_pointer)
  ultimately show ?case using 7(1) by (simp add: isAtEnd_def)
next
  case (8 ts r l i f start block st current q bracket res inner st1)
  from 8 have "pointer st < q" by (auto dest!: dispatch_OpenIf)
  moreover from 8 have "Suc q \<le> pointer st1" by (auto dest: parseItems_dom_pointer)
  ultimately show ?case using 8(1) by (simp add: isAtEnd_def)
next
  case (9 ts r l i f start block st current name ps fty q bracket)
  then show ?case by (auto simp: isAtEnd_def dest!: dispatch_OpenFn)
next
  case (10 ts r l i f start block st current name ps fty q bracket res inner st1)
  from 10 have "pointer st < q" by (auto dest!: dispatch_OpenFn)
  moreover from 10 have "Suc q \<le> pointer st1" by (auto dest: parseItems_dom_pointer)
  ultimately show ?case using 10(1) by (simp add: isAtEnd_def)
qed

declare parseItems.simps [simp del]


text \<open>\<^verbatim>\<open>#parseStatement(isInRoot, isInLoop, isInIf, isInFunction)\<close>\<close>

definition parseStatement ::
  "Token list \<Rightarrow> bool \<Rightarrow> bool \<Rightarrow> bool \<Rightarrow> bool \<Rightarrow> Parser \<Rightarrow> error + (Program \<times> Parser)" where
  "parseStatement ts isInRoot isInLoop isInIf isInFunction st =
     (case peek ts (pointer st) of
        Inl e \<Rightarrow> Inl e
      | Inr t \<Rightarrow>
          parseItems ts isInRoot isInLoop isInIf isInFunction (startPos t) []
            (if \<not> isInRoot then st\<lparr>pointer := Suc (pointer st)\<rparr> else st))"

text \<open>
  \<^verbatim>\<open>new Parser(tokens, functions).parse()\<close>: the error returned (or thrown), or the
  program with the parser's state when \<^verbatim>\<open>parse\<close> returns nothing.
\<close>

definition parse :: "Token list \<Rightarrow> Functions \<Rightarrow> error + (Program \<times> Parser)" where
  "parse ts fs =
     (case parseStatement ts True False False False
             \<lparr>pointer = 0, functions_map = fs, newFunctions = []\<rparr> of
        Inl e \<Rightarrow> Inl e
      | Inr (block, st) \<Rightarrow>
         (case checkFunctions block (functions_map st) (newFunctions st) of
            Some e \<Rightarrow> Inl e
          | None \<Rightarrow> Inr (block, st)))"

section \<open>Example inputs\<close>

text \<open>A token on one line, from its type, payload, line, first and last column.\<close>

definition token :: "TokenType \<Rightarrow> Value \<Rightarrow> int \<Rightarrow> int \<Rightarrow> int \<Rightarrow> Token" where
  "token ty v l c c' =
     \<lparr>ttype = ty, startPos = \<lparr>line = l, char = c\<rparr>, endPos = \<lparr>line = l, char = c'\<rparr>,
      tvalue = v\<rparr>"

text \<open>\<^verbatim>\<open>if { } else { nope }\<close>\<close>

definition tokens_if_else :: "Token list" where
  "tokens_if_else =
     [token Keyword (VStr ''if'') 1 1 2, token OpenBracket (VStr ''{'') 1 4 4,
      token CloseBracket (VStr ''}'') 1 6 6, token Keyword (VStr ''else'') 1 8 11,
      token OpenBracket (VStr ''{'') 1 13 13, token Identifier (VStr ''nope'') 1 15 18,
      token CloseBracket (VStr ''}'') 1 20 20]"

text \<open>\<^verbatim>\<open>loop { break }\<close>\<close>

definition tokens_loop_break :: "Token list" where
  "tokens_loop_break =
     [token Keyword (VStr ''loop'') 1 1 4, token OpenBracket (VStr ''{'') 1 6 6,
      token Keyword (VStr ''break'') 1 8 12, token CloseBracket (VStr ''}'') 1 14 14]"

text \<open>\<^verbatim>\<open>fn f ( ) @any { any }\<close>\<close>

definition tokens_fn_any :: "Token list" where
  "tokens_fn_any =
     [token Keyword (VStr ''fn'') 1 1 2, token Identifier (VStr ''f'') 1 4 4,
      token OpenParen (VStr ''('') 1 6 6, token CloseParen (VStr '')'') 1 8 8,
      token Keyword (VStr ''@any'') 1 10 13, token OpenBracket (VStr ''{'') 1 15 15,
      token Keyword (VStr ''any'') 1 17 19, token CloseBracket (VStr ''}'') 1 21 21]"

text \<open>\<^verbatim>\<open>1 } 2\<close>\<close>

definition tokens_root_close :: "Token list" where
  "tokens_root_close =
     [token TInt (VNum 1) 1 1 1, token CloseBracket (VStr ''}'') 1 3 3,
      token TInt (VNum 2) 1 5 5]"

text \<open>\<^verbatim>\<open>fn f ( x : 5 ) @int { x }\<close>\<close>

definition tokens_fn_untyped :: "Token list" where
  "tokens_fn_untyped =
     [token Keyword (VStr ''fn'') 1 1 2, token Identifier (VStr ''f'') 1 4 4,
      token OpenParen (VStr ''('') 1 6 6, token Identifier (VStr ''x'') 1 8 8,
      token Colon (VStr '':'') 1 10 10, token TInt (VNum 5) 1 12 12,
      token CloseParen (VStr '')'') 1 14 14, token Keyword (VStr ''@int'') 1 16 19,
      token OpenBracket (VStr ''{'') 1 21 21, token Identifier (VStr ''x'') 1 23 23,
      token CloseBracket (VStr ''}'') 1 25 25]"

text \<open>\<^verbatim>\<open>loop { 1\<close>, and the bracket that would close it.\<close>

definition tokens_unclosed :: "Token list" where
  "tokens_unclosed =
     [token Keyword (VStr ''loop'') 1 1 4, token OpenBracket (VStr ''{'') 1 6 6,
      token TInt (VNum 1) 1 8 8]"

definition token_close :: Token where
  "token_close = token CloseBracket (VStr ''}'') 1 10 10"

text \<open>\<^verbatim>\<open>loop { for\<close>\<close>

definition tokens_loop_for :: "Token list" where
  "tokens_loop_for =
     [token Keyword (VStr ''loop'') 1 1 4, token OpenBracket (VStr ''{'') 1 6 6,
      token Keyword (VStr ''for'') 1 8 10]"

text \<open>\<^verbatim>\<open>toString\<close>\<close>

definition tokens_toString :: "Token list" where
  "tokens_toString = [token Identifier (VStr ''toString'') 1 1 8]"

text \<open>\<^verbatim>\<open>fn valueOf ( ) @any { } fn gi ( ) @int { } 1 valueOf gi\<close>, for a name of seven
  letters in the place of \<^verbatim>\<open>valueOf\<close>.\<close>

definition tokens_call :: "string \<Rightarrow> Token list" where
  "tokens_call name =
     [token Keyword (VStr ''fn'') 1 1 2, token Identifier (VStr name) 1 4 10,
      token OpenParen (VStr ''('') 1 12 12, token CloseParen (VStr '')'') 1 14 14,
      token Keyword (VStr ''@any'') 1 16 19, token OpenBracket (VStr ''{'') 1 21 21,
      token CloseBracket (VStr ''}'') 1 23 23,
      token Keyword (VStr ''fn'') 1 25 26, token Identifier (VStr ''gi'') 1 28 29,
      token OpenParen (VStr ''('') 1 31 31, token CloseParen (VStr '')'') 1 33 33,
      token Keyword (VStr ''@int'') 1 35 38, token OpenBracket (VStr ''{'') 1 40 40,
      token CloseBracket (VStr ''}'') 1 42 42,
      token TInt (VNum 1) 1 44 44, token Identifier (VStr name) 1 46 52,
      token Identifier (VStr ''gi'') 1 54 55]"

text \<open>A function table with one function \<^verbatim>\<open>inc\<close> of stack type Int, a call of it, and
  an identifier that is declared nowhere.\<close>

definition table_inc :: Functions where
  "table_inc = [''inc'' \<mapsto> \<lparr>stack = SInt, params = Map.empty, body = []\<rparr>]"

definition token_inc :: Token where
  "token_inc = token Identifier (VStr ''inc'') 1 3 5"

definition token_nope :: Token where
  "token_nope = token Identifier (VStr ''nope'') 1 3 6"

section \<open>Evaluation of the examples\<close>

lemmas parser_eval =
  parse_def parseStatement_def parseItems.simps parseParams.simps peek_def isAtEnd_def expect_def
  errorAtPeek_def dispatch_def loopHead_def forHead_def whileHead_def ifHead_def fnHead_def
  includes_str_def paramType_def functionType_def token_def
  checkFunctions_def traverseExpression_def keywordStack_def Let_def
  inIdentifiers_def getIdentifier_def inFunctions_def functionStack_def
  objectPrototypeNames_def assignParam_def

section \<open>The stack type through a block\<close>

text \<open>The stack type flows through a block from left to right.\<close>

lemma traverse_append:
  "traverse fs ids st (xs @ ys) =
     (case traverse fs ids st xs of Inl e \<Rightarrow> Inl e | Inr st' \<Rightarrow> traverse fs ids st' ys)"
  by (induction fs ids st xs rule: traverse.induct)
     (auto simp: Let_def split: sum.splits option.splits)

section \<open>The pointer only moves forward\<close>

lemma parseItems_pointer:
  "parseItems ts r l i f start block st = Inr (block', st') \<Longrightarrow> pointer st \<le> pointer st'"
proof (induction ts r l i f start block st arbitrary: block' st' rule: parseItems.induct)
  case (1 ts r l i f start block st)
  note res = "1.prems"[unfolded parseItems.simps[of ts r l i f start block st]]
  show ?case
  proof (cases "isAtEnd ts (pointer st)")
    case True
    with res show ?thesis by (auto split: if_splits)
  next
    case False
    then obtain current where pk: "peek ts (pointer st) = Inr current"
      by (auto simp: peek_def)
    show ?thesis
    proof (cases "dispatch ts r l f current (pointer st)")
      case (Fail e)
      with res False pk show ?thesis by simp
    next
      case Push
      with res False pk have "parseItems ts r l i f start (block @ [Expression current])
          (st\<lparr>pointer := Suc (pointer st)\<rparr>) = Inr (block', st')" by simp
      from "1.IH"(1)[OF False pk Push this] show ?thesis by simp
    next
      case Close
      with res False pk show ?thesis by auto
    next
      case (OpenBlock ty q)
      from dispatch_OpenBlock[OF OpenBlock] have q: "pointer st < q" "q < length ts" by auto
      from res False pk OpenBlock obtain bracket inner st1 where
        b: "peek ts q = Inr bracket" and
        n1: "parseItems ts False i f True (startPos bracket) [] (st\<lparr>pointer := Suc q\<rparr>) = Inr (inner, st1)" and
        n2: "parseItems ts r l i f start (block @ [Statement ty inner None]) st1 = Inr (block', st')"
        by (auto split: sum.splits)
      from "1.IH"(2)[OF False pk OpenBlock b n1] have "Suc q \<le> pointer st1" by simp
      moreover from "1.IH"(3)[OF False pk OpenBlock b n1 refl n2] have "pointer st1 \<le> pointer st'" .
      ultimately show ?thesis using q by simp
    next
      case (OpenIf q)
      from dispatch_OpenIf[OF OpenIf] have q: "pointer st < q" "q < length ts" by auto
      from res False pk OpenIf obtain bracket inner st1 where
        b: "peek ts q = Inr bracket" and
        n1: "parseItems ts False True f l (startPos bracket) [] (st\<lparr>pointer := Suc q\<rparr>) = Inr (inner, st1)"
        by (auto split: sum.splits)
      from "1.IH"(4)[OF False pk OpenIf b n1] have p1: "Suc q \<le> pointer st1" by simp
      show ?thesis
      proof (cases "expect ts (pointer st1 - 1) Keyword (Some ''else'')")
        case True
        with res False pk OpenIf b n1 obtain bracket2 els st2 where
          e2: "expect ts (Suc (pointer st1 - 1)) OpenBracket None" and
          b2: "peek ts (Suc (Suc (pointer st1 - 1))) = Inr bracket2" and
          n2: "parseItems ts False True f l (startPos bracket2) []
                 (st1\<lparr>pointer := Suc (Suc (Suc (pointer st1 - 1)))\<rparr>) = Inr (els, st2)" and
          n3: "parseItems ts r l i f start (block @ [Statement If inner (Some els)]) st2 = Inr (block', st')"
          by (auto split: sum.splits if_splits)
        from e2 have e2': "\<not> \<not> expect ts (Suc (pointer st1 - 1)) OpenBracket None" by simp
        from "1.IH"(5)[OF False pk OpenIf b n1 refl True e2' b2 n2]
        have "Suc (Suc (Suc (pointer st1 - 1))) \<le> pointer st2" by simp
        moreover from "1.IH"(6)[OF False pk OpenIf b n1 refl True e2' b2 n2 refl n3]
        have "pointer st2 \<le> pointer st'" .
        ultimately show ?thesis using q p1 by simp
      next
        case F: False
        with res False pk OpenIf b n1 have
          n3: "parseItems ts r l i f start (block @ [Statement If inner None])
                (st1\<lparr>pointer := Suc (pointer st1 - 1)\<rparr>) = Inr (block', st')"
          by (auto split: sum.splits if_splits)
        from "1.IH"(7)[OF False pk OpenIf b n1 refl F n3]
        show ?thesis using q p1 by simp
      qed
    next
      case (OpenFn name ps fty q)
      from dispatch_OpenFn[OF OpenFn] have q: "pointer st < q" "q < length ts" by auto
      from res False pk OpenFn obtain bracket inner st1 where
        b: "peek ts q = Inr bracket" and
        n1: "parseItems ts False i True l (startPos bracket) [] (st\<lparr>pointer := Suc q\<rparr>) = Inr (inner, st1)" and
        n2: "parseItems ts r l i f start block
              (st1\<lparr>newFunctions := newFunctions st1 @ [name],
                   functions_map := (functions_map st1)
                     (name \<mapsto> \<lparr>stack = fty, params = ps, body = inner\<rparr>)\<rparr>) = Inr (block', st')"
        by (auto split: sum.splits)
      from "1.IH"(8)[OF False pk OpenFn b n1] have "Suc q \<le> pointer st1" by simp
      moreover from "1.IH"(9)[OF False pk OpenFn b n1 refl n2] have "pointer st1 \<le> pointer st'" by simp
      ultimately show ?thesis using q by simp
    qed
  qed
qed

section \<open>One turn of the statement loop, by the action of the current token\<close>

lemma peek_token: "\<not> isAtEnd ts p \<Longrightarrow> peek ts p = Inr (ts ! p)"
  by (simp add: peek_def)

lemma peek_less: "p < length ts \<Longrightarrow> peek ts p = Inr (ts ! p)"
  by (simp add: peek_def isAtEnd_def)

lemma parseItems_atEnd:
  "isAtEnd ts (pointer st) \<Longrightarrow>
   parseItems ts r l i f start block st =
     (if \<not> r then Inl (Error start ExpectedEndingBracket) else Inr (block, st))"
  by (subst parseItems.simps) simp

lemma parseItems_Fail:
  "\<not> isAtEnd ts (pointer st) \<Longrightarrow>
   dispatch ts r l f (ts ! pointer st) (pointer st) = Fail e \<Longrightarrow>
   parseItems ts r l i f start block st = Inl e"
  by (subst parseItems.simps) (simp add: peek_token)

lemma parseItems_Push:
  "\<not> isAtEnd ts (pointer st) \<Longrightarrow>
   dispatch ts r l f (ts ! pointer st) (pointer st) = Push \<Longrightarrow>
   parseItems ts r l i f start block st =
     parseItems ts r l i f start (block @ [Expression (ts ! pointer st)])
       (st\<lparr>pointer := Suc (pointer st)\<rparr>)"
  by (subst parseItems.simps) (simp add: peek_token)

lemma parseItems_Close:
  "\<not> isAtEnd ts (pointer st) \<Longrightarrow>
   dispatch ts r l f (ts ! pointer st) (pointer st) = Close \<Longrightarrow>
   parseItems ts r l i f start block st = Inr (block, st\<lparr>pointer := Suc (pointer st)\<rparr>)"
  by (subst parseItems.simps) (simp add: peek_token)

lemma parseItems_OpenBlock:
  "\<not> isAtEnd ts (pointer st) \<Longrightarrow>
   dispatch ts r l f (ts ! pointer st) (pointer st) = OpenBlock ty q \<Longrightarrow>
   parseItems ts r l i f start block st =
     (case parseItems ts False i f True (startPos (ts ! q)) [] (st\<lparr>pointer := Suc q\<rparr>) of
        Inl e \<Rightarrow> Inl e
      | Inr (innerBlock, st1) \<Rightarrow>
          parseItems ts r l i f start (block @ [Statement ty innerBlock None]) st1)"
  by (subst parseItems.simps) (auto simp: peek_token peek_less dest!: dispatch_OpenBlock)

lemma parseItems_OpenIf:
  "\<not> isAtEnd ts (pointer st) \<Longrightarrow>
   dispatch ts r l f (ts ! pointer st) (pointer st) = OpenIf q \<Longrightarrow>
   parseItems ts r l i f start block st =
     (case parseItems ts False True f l (startPos (ts ! q)) [] (st\<lparr>pointer := Suc q\<rparr>) of
        Inl e \<Rightarrow> Inl e
      | Inr (innerBlock, st1) \<Rightarrow>
          if expect ts (pointer st1 - 1) Keyword (Some ''else'') then
            (if \<not> expect ts (Suc (pointer st1 - 1)) OpenBracket None
             then Inl (errorAtPeek ts (Suc (Suc (pointer st1 - 1))) ExpectedBracketAfterElse)
             else
               (case parseItems ts False True f l
                       (startPos (ts ! Suc (Suc (pointer st1 - 1)))) []
                       (st1\<lparr>pointer := Suc (Suc (Suc (pointer st1 - 1)))\<rparr>) of
                  Inl e \<Rightarrow> Inl e
                | Inr (elseBlock, st2) \<Rightarrow>
                    parseItems ts r l i f start
                      (block @ [Statement If innerBlock (Some elseBlock)]) st2))
          else
            parseItems ts r l i f start (block @ [Statement If innerBlock None])
              (st1\<lparr>pointer := Suc (pointer st1 - 1)\<rparr>))"
proof -
  assume a: "\<not> isAtEnd ts (pointer st)"
    "dispatch ts r l f (ts ! pointer st) (pointer st) = OpenIf q"
  from dispatch_OpenIf[OF a(2)] have q: "peek ts q = Inr (ts ! q)"
    by (simp add: peek_less)
  have inner: "peek ts (Suc (Suc k)) = Inr (ts ! Suc (Suc k))"
    if "expect ts (Suc k) OpenBracket None" for k
    using expect_less[OF that] by (simp add: peek_less)
  show ?thesis
    by (subst parseItems.simps)
       (auto simp: a q peek_token inner split: sum.splits)
qed

lemma parseItems_OpenFn:
  "\<not> isAtEnd ts (pointer st) \<Longrightarrow>
   dispatch ts r l f (ts ! pointer st) (pointer st) = OpenFn name ps fty q \<Longrightarrow>
   parseItems ts r l i f start block st =
     (case parseItems ts False i True l (startPos (ts ! q)) [] (st\<lparr>pointer := Suc q\<rparr>) of
        Inl e \<Rightarrow> Inl e
      | Inr (innerBlock, st1) \<Rightarrow>
          parseItems ts r l i f start block
            (st1\<lparr>newFunctions := newFunctions st1 @ [name],
                 functions_map := (functions_map st1)
                   (name \<mapsto> \<lparr>stack = fty, params = ps, body = innerBlock\<rparr>)\<rparr>))"
  by (subst parseItems.simps) (auto simp: peek_token peek_less dest!: dispatch_OpenFn)

text \<open>
  The nested calls in the source's own terms: with the pointer at \<open>q\<close>, the call
  \<^verbatim>\<open>this.#parseStatement(false, a, b, c)\<close> is what the statement loop runs for a block,
  and \<open>q\<close> is the position of an opening bracket.
\<close>

lemma parseStatement_nested:
  "q < length ts \<Longrightarrow>
   parseStatement ts False a b c (st\<lparr>pointer := q\<rparr>) =
     parseItems ts False a b c (startPos (ts ! q)) [] (st\<lparr>pointer := Suc q\<rparr>)"
  by (simp add: parseStatement_def peek_less)

lemma expect_type: "expect ts p ty v \<Longrightarrow> ttype (ts ! Suc p) = ty"
  by (simp add: expect_def split: if_splits)

lemma dispatch_open_bracket:
  "dispatch ts r l f current p = OpenBlock ty q \<Longrightarrow> ttype (ts ! q) = OpenBracket"
  "dispatch ts r l f current p = OpenIf q \<Longrightarrow> ttype (ts ! q) = OpenBracket"
  by (auto simp: dispatch_def loopHead_def forHead_def whileHead_def ifHead_def
           split: if_splits dest: expect_type)

lemma nested_error_returned:
  assumes "\<not> isAtEnd ts (pointer st)"
    and "dispatch ts r l f (ts ! pointer st) (pointer st) = OpenBlock ty q"
    and "parseStatement ts False i f True (st\<lparr>pointer := q\<rparr>) = Inl e"
  shows "parseItems ts r l i f start block st = Inl e"
proof -
  from dispatch_OpenBlock[OF assms(2)] have "q < length ts" by simp
  with assms(3) show ?thesis
    by (simp add: parseItems_OpenBlock[OF assms(1,2)] parseStatement_nested)
qed

lemma nested_error_returned_if:
  assumes "\<not> isAtEnd ts (pointer st)"
    and "dispatch ts r l f (ts ! pointer st) (pointer st) = OpenIf q"
    and "parseStatement ts False True f l (st\<lparr>pointer := q\<rparr>) = Inl e"
  shows "parseItems ts r l i f start block st = Inl e"
proof -
  from dispatch_OpenIf[OF assms(2)] have "q < length ts" by simp
  with assms(3) show ?thesis
    by (simp add: parseItems_OpenIf[OF assms(1,2)] parseStatement_nested)
qed

lemma nested_error_returned_fn:
  assumes "\<not> isAtEnd ts (pointer st)"
    and "dispatch ts r l f (ts ! pointer st) (pointer st) = OpenFn name ps fty q"
    and "parseStatement ts False i True l (st\<lparr>pointer := q\<rparr>) = Inl e"
  shows "parseItems ts r l i f start block st = Inl e"
proof -
  from dispatch_OpenFn[OF assms(2)] have "q < length ts" by simp
  with assms(3) show ?thesis
    by (simp add: parseItems_OpenFn[OF assms(1,2)] parseStatement_nested)
qed

lemma parseItems_progress:
  assumes "parseItems ts r l i f start block st = Inr (block', st')"
    and "\<not> isAtEnd ts (pointer st)"
  shows "pointer st < pointer st'"
proof (cases "dispatch ts r l f (ts ! pointer st) (pointer st)")
  case (Fail e)
  with assms show ?thesis by (simp add: parseItems_Fail)
next
  case Push
  with assms show ?thesis by (auto simp: parseItems_Push dest!: parseItems_pointer)
next
  case Close
  with assms show ?thesis by (auto simp: parseItems_Close)
next
  case (OpenBlock ty q)
  with assms show ?thesis
    by (auto simp: parseItems_OpenBlock split: sum.splits
             dest!: parseItems_pointer dispatch_OpenBlock)
next
  case (OpenIf q)
  with assms show ?thesis
    by (auto simp: parseItems_OpenIf split: sum.splits if_splits
             dest!: parseItems_pointer dispatch_OpenIf)
next
  case (OpenFn name ps fty q)
  with assms show ?thesis
    by (auto simp: parseItems_OpenFn split: sum.splits
             dest!: parseItems_pointer dispatch_OpenFn)
qed

lemma parseItems_nested_progress:
  assumes "parseItems ts False l i f start block st = Inr (block', st')"
  shows "pointer st < pointer st'"
proof (cases "isAtEnd ts (pointer st)")
  case True
  with assms show ?thesis by (simp add: parseItems_atEnd)
next
  case False
  with assms show ?thesis by (rule parseItems_progress)
qed

section \<open>Cutting the token array before the bracket that closes a block\<close>

lemma isAtEnd_take: "n \<le> length ts \<Longrightarrow> isAtEnd (take n ts) p = (n \<le> p)"
  by (simp add: isAtEnd_def)

lemma expect_take:
  "Suc p < n \<Longrightarrow> n \<le> length ts \<Longrightarrow> expect (take n ts) p ty v = expect ts p ty v"
  by (simp add: expect_def isAtEnd_def split: option.splits)

lemma expect_take_False:
  "\<not> expect ts p ty v \<Longrightarrow> n \<le> length ts \<Longrightarrow> \<not> expect (take n ts) p ty v"
  by (auto simp: expect_def isAtEnd_def split: if_splits option.splits)

lemma heads_actions [simp]:
  "loopHead ts p \<noteq> Push" "loopHead ts p \<noteq> Close" "loopHead ts p \<noteq> OpenIf q"
  "loopHead ts p \<noteq> OpenFn name ps fty q"
  "forHead ts p \<noteq> Push" "forHead ts p \<noteq> Close" "forHead ts p \<noteq> OpenIf q"
  "forHead ts p \<noteq> OpenFn name ps fty q"
  "whileHead ts p \<noteq> Push" "whileHead ts p \<noteq> Close" "whileHead ts p \<noteq> OpenIf q"
  "whileHead ts p \<noteq> OpenFn name ps fty q"
  "ifHead ts p \<noteq> Push" "ifHead ts p \<noteq> Close" "ifHead ts p \<noteq> OpenBlock ty q"
  "ifHead ts p \<noteq> OpenFn name ps fty q"
  by (simp_all add: loopHead_def forHead_def whileHead_def ifHead_def)

lemma fnHead_nested: "\<not> r \<Longrightarrow> fnHead ts r current p = Fail (Error (startPos current) NestedFunction)"
  by (simp add: fnHead_def)

lemma dispatch_nested_not_OpenFn:
  "\<not> r \<Longrightarrow> dispatch ts r l f current p \<noteq> OpenFn name ps fty q"
  by (simp add: dispatch_def fnHead_nested)

text \<open>The action depends on the token array only through the head of a statement.\<close>

lemma dispatch_heads:
  "dispatch ts r l f current p =
     (if ttype current = Keyword \<and> tvalue current = VStr ''loop'' then loopHead ts p
      else if ttype current = Keyword \<and> tvalue current = VStr ''for'' then forHead ts p
      else if ttype current = Keyword \<and> tvalue current = VStr ''while'' then whileHead ts p
      else if ttype current = Keyword \<and> tvalue current = VStr ''if'' then ifHead ts p
      else if ttype current = Keyword \<and> tvalue current = VStr ''fn'' then fnHead ts r current p
      else dispatch [] r l f current p)"
  by (simp add: dispatch_def includes_str_def)

lemma dispatch_take_Push:
  "dispatch ts r l f current p = Push \<Longrightarrow> dispatch (take n ts) r l f current p = Push"
  by (simp add: dispatch_heads[of ts] dispatch_heads[of "take n ts"] split: if_splits)

lemma dispatch_take_Close:
  "dispatch ts r l f current p = Close \<Longrightarrow> dispatch (take n ts) r l f current p = Close"
  by (simp add: dispatch_heads[of ts] dispatch_heads[of "take n ts"] split: if_splits)

lemma heads_take:
  assumes "q < n" and "n \<le> length ts"
  shows "loopHead ts p = OpenBlock ty q \<Longrightarrow> loopHead (take n ts) p = OpenBlock ty q"
    and "forHead ts p = OpenBlock ty q \<Longrightarrow> forHead (take n ts) p = OpenBlock ty q"
    and "whileHead ts p = OpenBlock ty q \<Longrightarrow> whileHead (take n ts) p = OpenBlock ty q"
    and "ifHead ts p = OpenIf q \<Longrightarrow> ifHead (take n ts) p = OpenIf q"
  using assms
  by (auto simp: loopHead_def forHead_def whileHead_def ifHead_def expect_take
           split: if_splits)

lemma dispatch_empty_not_open [simp]:
  "dispatch [] r l f current p \<noteq> OpenBlock ty q"
  "dispatch [] r l f current p \<noteq> OpenIf q"
  by (simp_all add: dispatch_def loopHead_def forHead_def whileHead_def ifHead_def
        expect_def isAtEnd_def fnHead_def)

lemma dispatch_take_OpenBlock:
  assumes "dispatch ts r l f current p = OpenBlock ty q" and "q < n" and "n \<le> length ts"
  shows "dispatch (take n ts) r l f current p = OpenBlock ty q"
  using assms(1) heads_take(1-3)[OF assms(2,3)]
  by (simp add: dispatch_heads[of ts] dispatch_heads[of "take n ts"] split: if_splits)

lemma dispatch_take_OpenIf:
  assumes "dispatch ts r l f current p = OpenIf q" and "q < n" and "n \<le> length ts"
  shows "dispatch (take n ts) r l f current p = OpenIf q"
  using assms(1) heads_take(4)[OF assms(2,3)]
  by (simp add: dispatch_heads[of ts] dispatch_heads[of "take n ts"] split: if_splits)

text \<open>
  A block that is not the root and returns behind position \<open>n\<close> at the latest reads no
  token from \<open>n\<close> on; a block that returns right behind the token at \<open>n\<close> was closed
  by that token, and without it the statement loop runs into the end of the input.
\<close>

lemma parseItems_take:
  "parseItems ts r l i f start block st = Inr (block', st') \<Longrightarrow> \<not> r \<Longrightarrow> n < length ts \<Longrightarrow>
     (pointer st' \<le> n \<longrightarrow>
        parseItems (take n ts) r l i f start block st = Inr (block', st')) \<and>
     (pointer st' = Suc n \<longrightarrow>
        parseItems (take n ts) r l i f start block st =
          Inl (Error start ExpectedEndingBracket))"
proof (induction ts r l i f start block st arbitrary: block' st' rule: parseItems.induct)
  case (1 ts r l i f start block st)
  let ?ts' = "take n ts"
  let ?p = "pointer st"
  note res = \<open>parseItems ts r l i f start block st = Inr (block', st')\<close>
  note nr = \<open>\<not> r\<close>
  note nlt = \<open>n < length ts\<close>
  have n: "n \<le> length ts" using nlt by simp
  have notend: "\<not> isAtEnd ts ?p"
    using res nr by (auto simp: parseItems_atEnd)
  note pk = peek_token[OF notend]
  have prog: "?p < pointer st'"
    by (rule parseItems_progress[OF res notend])
  show ?case
  proof (cases "?p < n")
    case False
    hence "isAtEnd ?ts' ?p" by (simp add: isAtEnd_take n)
    with False prog nr show ?thesis by (auto simp: parseItems_atEnd)
  next
    case pn: True
    hence notend': "\<not> isAtEnd ?ts' ?p" by (simp add: isAtEnd_take n)
    have cur: "?ts' ! ?p = ts ! ?p" using pn by simp
    show ?thesis
    proof (cases "dispatch ts r l f (ts ! ?p) ?p")
      case (Fail e)
      with res notend show ?thesis by (simp add: parseItems_Fail)
    next
      case Push
      have d': "dispatch ?ts' r l f (?ts' ! ?p) ?p = Push"
        unfolding cur by (rule dispatch_take_Push[OF Push])
      from res Push notend
      have cont: "parseItems ts r l i f start (block @ [Expression (ts ! ?p)])
          (st\<lparr>pointer := Suc ?p\<rparr>) = Inr (block', st')"
        by (simp add: parseItems_Push)
      from "1.IH"(1)[OF notend pk Push cont nr nlt]
      show ?thesis by (simp add: parseItems_Push[OF notend' d'] cur)
    next
      case Close
      have d': "dispatch ?ts' r l f (?ts' ! ?p) ?p = Close"
        unfolding cur by (rule dispatch_take_Close[OF Close])
      from res Close notend pn show ?thesis
        by (auto simp: parseItems_Close parseItems_Close[OF notend' d'])
    next
      case (OpenBlock ty q)
      from dispatch_OpenBlock[OF OpenBlock] have q: "?p < q" "q < length ts" by auto
      from res notend OpenBlock obtain inner st1 where
        n1: "parseItems ts False i f True (startPos (ts ! q)) [] (st\<lparr>pointer := Suc q\<rparr>) =
               Inr (inner, st1)" and
        n2: "parseItems ts r l i f start (block @ [Statement ty inner None]) st1 =
               Inr (block', st')"
        by (auto simp: parseItems_OpenBlock split: sum.splits)
      from parseItems_nested_progress[OF n1] have s1: "Suc q < pointer st1" by simp
      from n2 nr have "parseItems ts False l i f start (block @ [Statement ty inner None]) st1 =
               Inr (block', st')" by simp
      from parseItems_nested_progress[OF this] have s2: "pointer st1 < pointer st'" .
      from "1.IH"(2)[OF notend pk OpenBlock peek_less[OF q(2)] n1 _ nlt]
      have IH1: "pointer st1 \<le> n \<Longrightarrow>
          parseItems ?ts' False i f True (startPos (ts ! q)) [] (st\<lparr>pointer := Suc q\<rparr>) =
            Inr (inner, st1)"
        by simp
      note IH2 = "1.IH"(3)[OF notend pk OpenBlock peek_less[OF q(2)] n1 refl n2 nr nlt]
      show ?thesis
      proof (cases "pointer st' \<le> Suc n")
        case False
        then show ?thesis by simp
      next
        case True
        with s1 s2 have b: "pointer st1 \<le> n" "q < n" by simp_all
        have d': "dispatch ?ts' r l f (?ts' ! ?p) ?p = OpenBlock ty q"
          unfolding cur by (rule dispatch_take_OpenBlock[OF OpenBlock b(2) n])
        have tq: "?ts' ! q = ts ! q" using b(2) by simp
        show ?thesis
          using IH2 by (simp add: parseItems_OpenBlock[OF notend' d'] IH1[OF b(1)] tq)
      qed
    next
      case (OpenIf q)
      from dispatch_OpenIf[OF OpenIf] have q: "?p < q" "q < length ts" by auto
      note full = res[unfolded parseItems_OpenIf[OF notend OpenIf]]
      from full obtain inner st1 where
        n1: "parseItems ts False True f l (startPos (ts ! q)) [] (st\<lparr>pointer := Suc q\<rparr>) =
               Inr (inner, st1)"
        by (auto split: sum.splits)
      from parseItems_nested_progress[OF n1] have s1: "Suc q < pointer st1" by simp
      hence p1: "Suc (pointer st1 - 1) = pointer st1" by simp
      from "1.IH"(4)[OF notend pk OpenIf peek_less[OF q(2)] n1 _ nlt]
      have IH1: "pointer st1 \<le> n \<Longrightarrow>
          parseItems ?ts' False True f l (startPos (ts ! q)) [] (st\<lparr>pointer := Suc q\<rparr>) =
            Inr (inner, st1)"
        by simp
      show ?thesis
      proof (cases "expect ts (pointer st1 - 1) Keyword (Some ''else'')")
        case e1: True
        with full n1 obtain els st2 where
          e2: "expect ts (Suc (pointer st1 - 1)) OpenBracket None" and
          n2: "parseItems ts False True f l (startPos (ts ! Suc (Suc (pointer st1 - 1)))) []
                 (st1\<lparr>pointer := Suc (Suc (Suc (pointer st1 - 1)))\<rparr>) = Inr (els, st2)" and
          n3: "parseItems ts r l i f start (block @ [Statement If inner (Some els)]) st2 =
                 Inr (block', st')"
          by (auto split: sum.splits if_splits)
        from e2 have e2': "\<not> \<not> expect ts (Suc (pointer st1 - 1)) OpenBracket None" by simp
        from expect_less[OF e2] have b2: "peek ts (Suc (Suc (pointer st1 - 1))) =
            Inr (ts ! Suc (Suc (pointer st1 - 1)))"
          by (simp add: peek_less)
        from parseItems_nested_progress[OF n2]
        have s2: "Suc (Suc (pointer st1)) < pointer st2" by (simp add: p1)
        from n3 nr have "parseItems ts False l i f start
            (block @ [Statement If inner (Some els)]) st2 = Inr (block', st')" by simp
        from parseItems_nested_progress[OF this] have s3: "pointer st2 < pointer st'" .
        from "1.IH"(5)[OF notend pk OpenIf peek_less[OF q(2)] n1 refl e1 e2' b2 n2 _ nlt]
        have IH2: "pointer st2 \<le> n \<Longrightarrow>
            parseItems ?ts' False True f l (startPos (ts ! Suc (Suc (pointer st1 - 1)))) []
                 (st1\<lparr>pointer := Suc (Suc (Suc (pointer st1 - 1)))\<rparr>) = Inr (els, st2)"
          by simp
        note IH3 = "1.IH"(6)[OF notend pk OpenIf peek_less[OF q(2)] n1 refl e1 e2' b2 n2 refl
            n3 nr nlt]
        show ?thesis
        proof (cases "pointer st' \<le> Suc n")
          case False
          then show ?thesis by simp
        next
          case True
          with s1 s2 s3 have b: "pointer st2 \<le> n" "Suc (Suc (pointer st1)) < n" "q < n"
            by simp_all
          have d': "dispatch ?ts' r l f (?ts' ! ?p) ?p = OpenIf q"
            unfolding cur by (rule dispatch_take_OpenIf[OF OpenIf b(3) n])
          have tq: "?ts' ! q = ts ! q" using b(3) by simp
          have t2: "?ts' ! Suc (Suc (pointer st1 - 1)) = ts ! Suc (Suc (pointer st1 - 1))"
            using b(2) by simp
          have e1': "expect ?ts' (pointer st1 - 1) Keyword (Some ''else'')"
            using e1 b(2) by (simp add: expect_take n)
          have e2'': "expect ?ts' (Suc (pointer st1 - 1)) OpenBracket None"
            using e2 b(2) by (simp add: expect_take n)
          from b(1) s1 have "pointer st1 \<le> n" using s2 by simp
          note n1' = IH1[OF this]
          show ?thesis
            using IH3 n1' tq e1' e2'' t2 IH2[OF b(1)]
            by (simp add: parseItems_OpenIf[OF notend' d'])
        qed
      next
        case e1: False
        with full n1 have
          n3: "parseItems ts r l i f start (block @ [Statement If inner None])
                (st1\<lparr>pointer := Suc (pointer st1 - 1)\<rparr>) = Inr (block', st')"
          by (auto split: sum.splits if_splits)
        with nr have "parseItems ts False l i f start (block @ [Statement If inner None])
                (st1\<lparr>pointer := Suc (pointer st1 - 1)\<rparr>) = Inr (block', st')" by simp
        from parseItems_nested_progress[OF this] have s3: "pointer st1 < pointer st'"
          by (simp add: p1)
        note IH3 = "1.IH"(7)[OF notend pk OpenIf peek_less[OF q(2)] n1 refl e1 n3 nr nlt]
        show ?thesis
        proof (cases "pointer st' \<le> Suc n")
          case False
          then show ?thesis by simp
        next
          case True
          with s1 s3 have b: "pointer st1 \<le> n" "q < n" by simp_all
          have d': "dispatch ?ts' r l f (?ts' ! ?p) ?p = OpenIf q"
            unfolding cur by (rule dispatch_take_OpenIf[OF OpenIf b(2) n])
          have tq: "?ts' ! q = ts ! q" using b(2) by simp
          have e1': "\<not> expect ?ts' (pointer st1 - 1) Keyword (Some ''else'')"
            by (rule expect_take_False[OF e1 n])
          show ?thesis
            using IH3 IH1[OF b(1)] tq e1' by (simp add: parseItems_OpenIf[OF notend' d'])
        qed
      qed
    next
      case (OpenFn name ps fty q)
      with nr show ?thesis by (simp add: dispatch_nested_not_OpenFn)
    qed
  qed
qed

section \<open>The claims\<close>

text \<open>
  C1. For an If statement with an else block the claim has both blocks verified from Bool.
  The code verifies the then block twice and never the else block: the tokens
  \<^verbatim>\<open>if { } else { nope }\<close> parse and pass the check with an empty function table,
  although the else block on its own is rejected from Bool with an undeclared identifier.
\<close>

theorem else_block_not_verified:
  "parse tokens_if_else Map.empty =
     Inr ([Statement If [] (Some [Expression (token Identifier (VStr ''nope'') 1 15 18)])],
          \<lparr>pointer = 7, functions_map = Map.empty, newFunctions = []\<rparr>)
   \<and> traverse Map.empty Map.empty (StackOf SBool)
         [Expression (token Identifier (VStr ''nope'') 1 15 18)] =
     Inl (Error \<lparr>line = 1, char = 15\<rparr> (UndeclaredIdentifier (VStr ''nope'')))"
  by (simp add: tokens_if_else_def parser_eval)

lemma dispatch_context_keywords:
  assumes "ttype current = Keyword"
  shows "tvalue current = VStr ''break'' \<Longrightarrow>
           dispatch ts r l f current p =
             (if l then Push else Fail (Error (startPos current) UnexpectedBreak))"
    and "tvalue current = VStr ''continue'' \<Longrightarrow>
           dispatch ts r l f current p =
             (if l then Push else Fail (Error (startPos current) UnexpectedContinue))"
    and "tvalue current = VStr ''any'' \<Longrightarrow>
           dispatch ts r l f current p =
             (if f then Push else Fail (Error (startPos current) UnexpectedAny))"
  using assms by (simp_all add: dispatch_def includes_str_def)

text \<open>
  C2. A \<^verbatim>\<open>break\<close> or \<^verbatim>\<open>continue\<close> is pushed exactly when the parameter \<^verbatim>\<open>isInLoop\<close> of the
  running call is true, an \<^verbatim>\<open>any\<close> exactly when \<^verbatim>\<open>isInFunction\<close> is, and is an error at
  the token otherwise (\<open>dispatch_context_keywords\<close>).
  The claim has the in-loop flag true inside every loop block. The nested call for a
  loop passes \<^verbatim>\<open>(false, isInIf, isInFunction, true)\<close> to the parameters
  \<^verbatim>\<open>(isInRoot, isInLoop, isInIf, isInFunction)\<close>, so inside a loop at the root the in-loop
  flag is false: \<^verbatim>\<open>loop { break }\<close> is refused at the \<^verbatim>\<open>break\<close>. In the same way the
  call for a function body passes \<^verbatim>\<open>(false, isInIf, true, isInLoop)\<close> and leaves the
  in-function flag false: \<^verbatim>\<open>fn f ( ) @any { any }\<close> is refused at the \<^verbatim>\<open>any\<close>.
\<close>

theorem break_in_loop_refused:
  "parse tokens_loop_break Map.empty = Inl (Error \<lparr>line = 1, char = 8\<rparr> UnexpectedBreak)
   \<and> parse tokens_fn_any Map.empty = Inl (Error \<lparr>line = 1, char = 17\<rparr> UnexpectedAny)"
  by (simp add: tokens_loop_break_def tokens_fn_any_def parser_eval)

text \<open>
  C3. The claim has a closing bracket at the root refused. The code returns the block
  read so far: \<^verbatim>\<open>1 } 2\<close> parses to the program \<^verbatim>\<open>1\<close>, the pointer stops behind the
  bracket and the last token is never read.
\<close>

theorem root_close_accepted:
  "parse tokens_root_close Map.empty =
     Inr ([Expression (token TInt (VNum 1) 1 1 1)],
          \<lparr>pointer = 2, functions_map = Map.empty, newFunctions = []\<rparr>)"
  by (simp add: tokens_root_close_def parser_eval)

text \<open>
  C4. The check of the functions is the first error of these runs, in this order: the
  root program from the empty identifier context and stack type Int; then, for each name
  in the list of new functions, the body of its table entry from the entry's own
  parameters and the entry's declared stack type.
\<close>

theorem checkFunctions_runs:
  "checkFunctions program fs newFns =
     (case List.find isl
             (traverse fs Map.empty (StackOf SInt) program #
              map (\<lambda>fn. case fs fn of
                           None \<Rightarrow> Inl TypeError
                         | Some f \<Rightarrow> traverse fs (params f) (StackOf (stack f)) (body f)) newFns) of
        None \<Rightarrow> None
      | Some r \<Rightarrow> Some (projl r))"
proof -
  have new: "checkNewFunctions fs ns =
     (case List.find isl
             (map (\<lambda>fn. case fs fn of
                           None \<Rightarrow> Inl TypeError
                         | Some f \<Rightarrow> traverse fs (params f) (StackOf (stack f)) (body f)) ns) of
        None \<Rightarrow> None
      | Some r \<Rightarrow> Some (projl r))" for ns
    by (induction ns) (auto split: option.splits sum.splits)
  show ?thesis
    by (cases "traverse fs Map.empty (StackOf SInt) program") (simp_all add: checkFunctions_def new)
qed

text \<open>
  C5. A for loop's body is verified from Int and the stack type after it is Int; a while
  loop's body is verified from Bool and the stack type after it is Bool; both whatever
  the stack type before the loop. A plain loop's body is verified from the incoming
  stack type, which is also the stack type after the loop.
  For each loop: the result for any body and what follows; the first expression of the
  body is checked at the initial stack type and its error is the loop's; and the stack
  type after a loop with an empty body.
\<close>

theorem traverse_loops:
  "traverse fs ids st (Statement ForLoop blk els # rest) =
     (case traverse fs ids (StackOf SInt) blk of
        Inl e \<Rightarrow> Inl e | Inr _ \<Rightarrow> traverse fs ids (StackOf SInt) rest)
   \<and> traverse fs ids st (Statement WhileLoop blk els # rest) =
     (case traverse fs ids (StackOf SBool) blk of
        Inl e \<Rightarrow> Inl e | Inr _ \<Rightarrow> traverse fs ids (StackOf SBool) rest)
   \<and> traverse fs ids st (Statement Loop blk els # rest) =
     (case traverse fs ids st blk of Inl e \<Rightarrow> Inl e | Inr _ \<Rightarrow> traverse fs ids st rest)
   \<and> traverse fs ids st [Statement ForLoop (Expression t # blk) els] =
     (case traverseExpression fs ids (StackOf SInt) t of
        Inl e \<Rightarrow> Inl e
      | Inr st' \<Rightarrow>
         (case traverse fs ids st' blk of Inl e \<Rightarrow> Inl e | Inr _ \<Rightarrow> Inr (StackOf SInt)))
   \<and> traverse fs ids st [Statement WhileLoop (Expression t # blk) els] =
     (case traverseExpression fs ids (StackOf SBool) t of
        Inl e \<Rightarrow> Inl e
      | Inr st' \<Rightarrow>
         (case traverse fs ids st' blk of Inl e \<Rightarrow> Inl e | Inr _ \<Rightarrow> Inr (StackOf SBool)))
   \<and> traverse fs ids st [Statement Loop (Expression t # blk) els] =
     (case traverseExpression fs ids st t of
        Inl e \<Rightarrow> Inl e
      | Inr st' \<Rightarrow> (case traverse fs ids st' blk of Inl e \<Rightarrow> Inl e | Inr _ \<Rightarrow> Inr st))
   \<and> traverse fs ids st [Statement ForLoop [] els] = Inr (StackOf SInt)
   \<and> traverse fs ids st [Statement WhileLoop [] els] = Inr (StackOf SBool)
   \<and> traverse fs ids st [Statement Loop [] els] = Inr st"
  by (simp split: sum.splits)

text \<open>
  With \<^verbatim>\<open>inc\<close> a function of stack type Int: a for loop that calls it passes after a
  string and leaves Int; a while loop that calls it is refused at Bool after an integer;
  a plain loop that calls it passes after an integer and is refused after a string, and
  leaves the stack type it found; an undeclared identifier in the body of a for loop is
  the loop's error; an empty while loop leaves Bool.
\<close>

theorem traverse_loops_witness:
  "traverse table_inc Map.empty (StackOf SStr) [Statement ForLoop [Expression token_inc] None] =
     Inr (StackOf SInt)
   \<and> traverse table_inc Map.empty (StackOf SInt) [Statement WhileLoop [Expression token_inc] None] =
     Inl (Error \<lparr>line = 1, char = 3\<rparr> (CallNotFoundAtStack (StackOf SBool) (VStr ''inc'')))
   \<and> traverse table_inc Map.empty (StackOf SInt) [Statement Loop [Expression token_inc] None] =
     Inr (StackOf SInt)
   \<and> traverse table_inc Map.empty (StackOf SStr) [Statement Loop [Expression token_inc] None] =
     Inl (Error \<lparr>line = 1, char = 3\<rparr> (CallNotFoundAtStack (StackOf SStr) (VStr ''inc'')))
   \<and> traverse table_inc Map.empty (StackOf SStr)
         [Statement Loop [Expression (token TFloat (VNum 2) 1 3 3)] None] =
     Inr (StackOf SStr)
   \<and> traverse table_inc Map.empty (StackOf SInt) [Statement ForLoop [Expression token_nope] None] =
     Inl (Error \<lparr>line = 1, char = 3\<rparr> (UndeclaredIdentifier (VStr ''nope'')))
   \<and> traverse table_inc Map.empty (StackOf SInt) [Statement WhileLoop [] None] =
     Inr (StackOf SBool)"
  using traverse_loops [where fs = table_inc and ids = Map.empty and st = "StackOf SStr"
          and blk = "[]" and els = None and rest = "[]" and t = token_inc]
    traverse_loops [where fs = table_inc and ids = Map.empty and st = "StackOf SInt"
          and blk = "[]" and els = None and rest = "[]" and t = token_inc]
    traverse_loops [where fs = table_inc and ids = Map.empty and st = "StackOf SStr"
          and blk = "[]" and els = None and rest = "[]" and t = "token TFloat (VNum 2) 1 3 3"]
    traverse_loops [where fs = table_inc and ids = Map.empty and st = "StackOf SInt"
          and blk = "[]" and els = None and rest = "[]" and t = token_nope]
  by (simp add: traverseExpression_def inIdentifiers_def inFunctions_def functionStack_def
        objectPrototypeNames_def table_inc_def token_inc_def token_nope_def token_def)

text \<open>
  For a name that no object inherits, and a function table whose prototype no declaration
  has replaced, an identifier token is handled as follows: a name of the identifier
  context replaces the stack type by the parameter's type, before any look at the
  function table; otherwise a name of the function table is accepted exactly when the
  function's stack type is the current one or Any, and is a type error at the token if
  not; a name in neither is an undeclared identifier at the token.
\<close>

lemma traverse_identifier:
  assumes "ttype t = Identifier" and "tvalue t = VStr name"
    and "name \<notin> set objectPrototypeNames" and "''__proto__'' \<notin> dom fs"
  shows "traverse fs ids st (Expression t # rest) =
     (case ids name of
        Some ty \<Rightarrow> traverse fs ids (StackOf ty) rest
      | None \<Rightarrow>
         (case fs name of
            Some f \<Rightarrow>
              if StackOf (stack f) = st \<or> stack f = SAny then traverse fs ids st rest
              else Inl (Error (startPos t) (CallNotFoundAtStack st (VStr name)))
          | None \<Rightarrow> Inl (Error (startPos t) (UndeclaredIdentifier (VStr name)))))"
  using assms
  by (auto simp: traverseExpression_def inIdentifiers_def getIdentifier_def inFunctions_def
        functionStack_def split: option.splits)

text \<open>
  C6. The claim has an identifier that is neither in the identifier context nor in the
  function table refused as undeclared. The code tests \<^verbatim>\<open>value in otherIdentifiers\<close> on a
  plain object, which also holds for the names the object inherits: the program
  \<^verbatim>\<open>toString\<close> parses and passes the check with an empty function table, and the stack
  type is replaced by the inherited member, not by a parameter's declared type.
\<close>

theorem inherited_name_accepted:
  "parse tokens_toString Map.empty =
     Inr ([Expression (token Identifier (VStr ''toString'') 1 1 8)],
          \<lparr>pointer = 1, functions_map = Map.empty, newFunctions = []\<rparr>)
   \<and> traverse Map.empty Map.empty (StackOf SInt)
         [Expression (token Identifier (VStr ''toString'') 1 1 8)] =
     Inr (ProtoMember ''toString'')"
  by (simp add: tokens_toString_def parser_eval)

text \<open>
  Where the function table is reached and the call is accepted, the stack type is the one
  before the call: the function's declared type does not replace it.
\<close>

lemma call_keeps_stack:
  assumes "ttype t = Identifier" and "tvalue t = VStr name"
    and "\<not> inIdentifiers ids name" and "fs name = Some f"
    and "StackOf (stack f) = st \<or> stack f = SAny"
  shows "traverseExpression fs ids st t = Inr st"
    and "traverse fs ids st (Expression t # rest) = traverse fs ids st rest"
  using assms
  by (auto simp: traverseExpression_def inFunctions_def functionStack_def)

text \<open>
  C7. The claim has the stack type unchanged after every accepted call of a function.
  For a declared function named like a member of \<^verbatim>\<open>Object.prototype\<close> the code never looks
  at the function table: \<^verbatim>\<open>value in otherIdentifiers\<close> holds first and the inherited
  member replaces the stack type. In
  \<^verbatim>\<open>fn valueOf ( ) @any { } fn gi ( ) @int { } 1 valueOf gi\<close> the call of \<^verbatim>\<open>valueOf\<close> is
  accepted and the call of \<^verbatim>\<open>gi\<close> behind it is refused, since the stack type is no
  longer Int; the same program with the name \<^verbatim>\<open>keepTop\<close> passes.
\<close>

theorem call_replaces_stack:
  "parse (tokens_call ''valueOf'') Map.empty =
     Inl (Error \<lparr>line = 1, char = 54\<rparr>
            (CallNotFoundAtStack (ProtoMember ''valueOf'') (VStr ''gi'')))
   \<and> \<not> isl (parse (tokens_call ''keepTop'') Map.empty)"
  by (simp add: tokens_call_def parser_eval)

text \<open>
  C8, as claimed: whenever the end of the input is reached inside a block that is not the
  root, the error is "Expected ending bracket pair" at the block's opening bracket.
  It is not when the input ends inside the head of a statement: on \<^verbatim>\<open>loop { for\<close> the
  missing \<^verbatim>\<open>loop\<close> keyword is reported, one column behind the last token.
\<close>

theorem unmatched_bracket_head_error:
  "parse tokens_loop_for Map.empty = Inl (Error \<lparr>line = 1, char = 11\<rparr> ExpectedLoopAfterFor)
   \<and> parse tokens_loop_for Map.empty \<noteq>
       Inl (Error (startPos (tokens_loop_for ! 1)) ExpectedEndingBracket)"
  by (simp add: tokens_loop_for_def parser_eval)

text \<open>
  C8, amended. A block with an unmatched opening bracket: the tokens end where the bracket that
  closes the block would stand. Let the block, entered at its opening bracket, parse
  when a token \<open>c\<close> follows the tokens \<open>pre\<close> and return right behind \<open>c\<close> (so \<open>c\<close> is
  the bracket that closes it, and all statements inside are complete). On \<open>pre\<close> alone
  the end of the input is reached inside the block, and the result is the error
  "Expected ending bracket pair" at the start position of the block's opening bracket.
  Every enclosing statement loop, and \<^verbatim>\<open>parse\<close>, return the error of a nested block as
  it is (\<open>nested_error_returned\<close>).
\<close>

theorem unmatched_bracket:
  assumes "parseStatement (pre @ c # rest) False l i f st = Inr (block, st')"
    and "pointer st' = Suc (length pre)"
  shows "parseStatement pre False l i f st =
           Inl (Error (startPos (pre ! pointer st)) ExpectedEndingBracket)"
proof -
  let ?ts = "pre @ c # rest"
  from assms(1) obtain t where
    t: "peek ?ts (pointer st) = Inr t" and
    run: "parseItems ?ts False l i f (startPos t) [] (st\<lparr>pointer := Suc (pointer st)\<rparr>) =
            Inr (block, st')"
    by (auto simp: parseStatement_def split: sum.splits)
  from parseItems_nested_progress[OF run] assms(2) have p: "pointer st < length pre"
    by simp
  hence "peek ?ts (pointer st) = Inr (pre ! pointer st)"
    by (simp add: peek_less nth_append)
  with t have t': "t = pre ! pointer st" by simp
  have "length pre < length ?ts" by simp
  from parseItems_take[OF run _ this] assms(2)
  have "parseItems pre False l i f (startPos t) [] (st\<lparr>pointer := Suc (pointer st)\<rparr>) =
          Inl (Error (startPos t) ExpectedEndingBracket)"
    by simp
  with p t' show ?thesis
    by (simp add: parseStatement_def peek_less)
qed

theorem unmatched_bracket_witness:
  "parseStatement (tokens_unclosed @ token_close # []) False False False True
     \<lparr>pointer = 1, functions_map = Map.empty, newFunctions = []\<rparr> =
     Inr ([Expression (token TInt (VNum 1) 1 8 8)],
          \<lparr>pointer = 4, functions_map = Map.empty, newFunctions = []\<rparr>)
   \<and> parseStatement tokens_unclosed False False False True
     \<lparr>pointer = 1, functions_map = Map.empty, newFunctions = []\<rparr> =
     Inl (Error \<lparr>line = 1, char = 6\<rparr> ExpectedEndingBracket)
   \<and> parse tokens_unclosed Map.empty = Inl (Error \<lparr>line = 1, char = 6\<rparr> ExpectedEndingBracket)"
proof -
  have full: "parseStatement (tokens_unclosed @ token_close # []) False False False True
     \<lparr>pointer = 1, functions_map = Map.empty, newFunctions = []\<rparr> =
     Inr ([Expression (token TInt (VNum 1) 1 8 8)],
          \<lparr>pointer = 4, functions_map = Map.empty, newFunctions = []\<rparr>)"
    by (simp add: tokens_unclosed_def token_close_def parser_eval)
  have "parseStatement tokens_unclosed False False False True
     \<lparr>pointer = 1, functions_map = Map.empty, newFunctions = []\<rparr> =
     Inl (Error (startPos (tokens_unclosed ! 1)) ExpectedEndingBracket)"
    using unmatched_bracket [OF full] by (simp add: tokens_unclosed_def)
  moreover have "startPos (tokens_unclosed ! 1) = \<lparr>line = 1, char = 6\<rparr>"
    by (simp add: tokens_unclosed_def token_def)
  moreover have "parse tokens_unclosed Map.empty =
      Inl (Error \<lparr>line = 1, char = 6\<rparr> ExpectedEndingBracket)"
    by (simp add: tokens_unclosed_def parser_eval)
  ultimately show ?thesis using full by simp
qed

text \<open>
  C9. On the empty token array the first \<^verbatim>\<open>#peek\<close> reads \<^verbatim>\<open>this.tokens[-1].endPos\<close>:
  \<^verbatim>\<open>parse\<close> throws, it returns neither a program nor an Error.
\<close>

theorem parse_empty_throws: "parse [] fs = Inl TypeError"
  by (simp add: parse_def parseStatement_def peek_def isAtEnd_def)

text \<open>
  C10, as claimed: a parameter \<^verbatim>\<open>name :\<close> followed by a token that is no type keyword
  is recorded in the parameter map. It is not: in \<^verbatim>\<open>fn f ( x : 5 ) @int { x }\<close> the
  parameter loop, entered at the opening parenthesis, leaves the map empty at the closing
  one, and the \<^verbatim>\<open>x\<close> of the body is an undeclared identifier.
\<close>

theorem untyped_param_not_recorded:
  "parseParams tokens_fn_untyped 2 Map.empty = Inr (Map.empty, 6)
   \<and> parse tokens_fn_untyped Map.empty =
       Inl (Error \<lparr>line = 1, char = 23\<rparr> (UndeclaredIdentifier (VStr ''x'')))"
  by (simp add: tokens_fn_untyped_def parser_eval)

text \<open>
  C10, amended: for a parameter \<^verbatim>\<open>name :\<close> followed by a token that is no type keyword
  the parameter loop reports no error and goes on behind that token with the parameter
  map unchanged: the name is not recorded, neither with a type nor as Any.
  \<open>p\<close> is the pointer at the loop's test, one before the name.
\<close>

theorem untyped_param_skipped:
  assumes "p + 3 < length ts"
    and "ttype (ts ! Suc p) = Identifier" and "tvalue (ts ! Suc p) = VStr name"
    and "ttype (ts ! (p + 2)) = Colon"
    and "\<not> (ttype (ts ! (p + 3)) = Keyword \<and> paramType (tvalue (ts ! (p + 3))) \<noteq> None)"
  shows "parseParams ts p ps = parseParams ts (p + 3) ps"
  using assms
  by (subst parseParams.simps) (auto simp: isAtEnd_def expect_def peek_def)

theorem untyped_param_skipped_witness:
  "parseParams tokens_fn_untyped 2 Map.empty = parseParams tokens_fn_untyped 5 Map.empty
   \<and> parseParams tokens_fn_untyped 5 Map.empty = Inr (Map.empty, 6)"
proof -
  have "parseParams tokens_fn_untyped 2 Map.empty = parseParams tokens_fn_untyped (2 + 3) Map.empty"
    by (rule untyped_param_skipped [where name = "''x''"])
       (simp_all add: tokens_fn_untyped_def token_def paramType_def)
  moreover have "parseParams tokens_fn_untyped 5 Map.empty = Inr (Map.empty, 6)"
    by (simp add: tokens_fn_untyped_def parser_eval)
  ultimately show ?thesis by simp
qed

end
